theory Spec2Isabelle
  imports Complex_Main "HOL-Library.Log_Nat" "HOL-Library.Sublist" "HOL-Library.Multiset"
begin

section \<open>The search index lookup of nav/search\_index.js\<close>

text \<open>
  The script keeps one module variable, \<open>sel_idx\<close>, reads the query from the input
  element \<open>index_query\<close>, scores every title of the global \<open>site_index\<close> against two
  regular expressions built from the query, sorts, truncates to ten entries and renders
  them into the element \<open>index_results\<close>. The model follows the script function by
  function; the browser objects it touches are fields of a state record.
\<close>

subsection \<open>Numbers\<close>

text \<open>
  A score is an IEEE double. The values that occur are quotients of two string lengths
  and such a quotient times ten, so a double is modelled by the rational it denotes,
  together with \<open>NaN\<close> (from \<open>0 / 0\<close>) and \<open>Infinity\<close> (from \<open>n / 0\<close>). \<open>fl\<close> rounds a
  rational to the nearest number with a 53 bit significand, ties to even; string lengths
  are below \<open>2 ^ 53\<close>, so neither overflow nor subnormal results arise.
\<close>

datatype js_number = NaN | PosInf | Num rat

definition binade :: "rat \<Rightarrow> int" where
  "binade x = (case quotient_of x of (n, d) \<Rightarrow>
     let k = bitlen n - bitlen d in if power_int 2 k \<le> x then k else k - 1)"

definition round_even :: "rat \<Rightarrow> int" where
  "round_even x = (let f = \<lfloor>x\<rfloor>; r = x - of_int f in
     if r < 1 / 2 then f else if 1 / 2 < r then f + 1 else if even f then f else f + 1)"

definition fl :: "rat \<Rightarrow> rat" where
  "fl x = (if x = 0 then 0 else
     let e = binade \<bar>x\<bar> - 52 in
     sgn x * of_int (round_even (\<bar>x\<bar> * power_int 2 (- e))) * power_int 2 e)"

text \<open>\<open>query.length / title.length\<close>\<close>

definition js_div_length :: "nat \<Rightarrow> nat \<Rightarrow> js_number" where
  "js_div_length q t =
     (if t = 0 then (if q = 0 then NaN else PosInf) else Num (fl (of_nat q / of_nat t)))"

text \<open>\<open>x * 10\<close>\<close>

fun js_times10 :: "js_number \<Rightarrow> js_number" where
  "js_times10 NaN = NaN"
| "js_times10 PosInf = PosInf"
| "js_times10 (Num r) = Num (fl (r * 10))"

text \<open>\<open>a > b\<close> and \<open>a < b\<close> on numbers: every comparison with \<open>NaN\<close> is false.\<close>

fun js_gt :: "js_number \<Rightarrow> js_number \<Rightarrow> bool" where
  "js_gt (Num a) (Num b) = (b < a)"
| "js_gt PosInf (Num b) = True"
| "js_gt a b = False"

definition js_lt :: "js_number \<Rightarrow> js_number \<Rightarrow> bool" where
  "js_lt a b = js_gt b a"

subsection \<open>Strings\<close>

text \<open>
  Strings are lists of code units; the model covers the code units 0 to 255. The
  relational operators compare strings code unit by code unit.
\<close>

fun js_string_lt :: "string \<Rightarrow> string \<Rightarrow> bool" where
  "js_string_lt [] [] = False"
| "js_string_lt [] (y # ys) = True"
| "js_string_lt (x # xs) [] = False"
| "js_string_lt (x # xs) (y # ys) =
     ((of_char x :: nat) < of_char y \<or> (x = y \<and> js_string_lt xs ys))"

text \<open>
  Case folding of one code unit. With the flag \<open>i\<close> a regular expression compares
  the upper case forms of pattern and input characters (\<open>Canonicalize\<close>); in the range
  modelled these are the letters \<open>a\<close> to \<open>z\<close> and the Latin-1 letters \<open>0xE0\<close> to \<open>0xFE\<close>
  without the division sign \<open>0xF7\<close>. \<open>toLowerCase\<close> maps the other way.
\<close>

definition canonicalize :: "char \<Rightarrow> char" where
  "canonicalize c = (let n = (of_char c :: nat) in
     if (97 \<le> n \<and> n \<le> 122) \<or> (224 \<le> n \<and> n \<le> 254 \<and> n \<noteq> 247) then char_of (n - 32) else c)"

definition toLowerCase_char :: "char \<Rightarrow> char" where
  "toLowerCase_char c = (let n = (of_char c :: nat) in
     if (65 \<le> n \<and> n \<le> 90) \<or> (192 \<le> n \<and> n \<le> 222 \<and> n \<noteq> 215) then char_of (n + 32) else c)"

definition toLowerCase :: "string \<Rightarrow> string" where
  "toLowerCase s = map toLowerCase_char s"

subsection \<open>Regular expressions\<close>

text \<open>
  The exceptions the script can raise.
\<close>

datatype error = SyntaxError | ReferenceError | TypeError

text \<open>
  \<open>new RegExp(source, 'i')\<close> is written out for the sources that consist of leading
  \<open>^\<close> assertions followed by ordinary characters and the wildcard \<open>.\<close>
  (\<open>compile_pattern\<close> and \<open>test\<close>). What the constructor of the JavaScript engine
  does with any other source (one with \<open>\ ^ $ * + ? ( ) [ ] { } |\<close> elsewhere) is a
  parameter of the model: \<open>engine source\<close> is \<open>None\<close> where the constructor throws a
  \<open>SyntaxError\<close>, and otherwise the \<open>test\<close> function of the regular expression it
  builds. The theorems hold for every engine.
\<close>

datatype atom = Literal char | Dot

record regexp =
  anchored :: bool
  atoms :: "atom list"

definition syntax_character :: "char \<Rightarrow> bool" where
  "syntax_character c \<longleftrightarrow> c \<in> set ''^$.*+?()[]{}|'' \<or> c = CHR 0x5C"

fun compile_atoms :: "string \<Rightarrow> atom list option" where
  "compile_atoms [] = Some []"
| "compile_atoms (c # cs) =
     (if c = CHR ''.'' then map_option ((#) Dot) (compile_atoms cs)
      else if syntax_character c then None
      else map_option ((#) (Literal c)) (compile_atoms cs))"

fun compile_pattern :: "string \<Rightarrow> regexp option" where
  "compile_pattern [] = Some \<lparr>anchored = False, atoms = []\<rparr>"
| "compile_pattern (c # cs) =
     (if c = CHR ''^'' then map_option (\<lambda>r. r\<lparr>anchored := True\<rparr>) (compile_pattern cs)
      else map_option (\<lambda>as. \<lparr>anchored = False, atoms = as\<rparr>) (compile_atoms (c # cs)))"

fun atom_matches :: "atom \<Rightarrow> char \<Rightarrow> bool" where
  "atom_matches (Literal a) c = (canonicalize a = canonicalize c)"
| "atom_matches Dot c = (c \<noteq> CHR 0x0A \<and> c \<noteq> CHR 0x0D)"

fun match_here :: "atom list \<Rightarrow> string \<Rightarrow> bool" where
  "match_here [] s = True"
| "match_here (a # as) [] = False"
| "match_here (a # as) (c # cs) = (atom_matches a c \<and> match_here as cs)"

fun match_anywhere :: "atom list \<Rightarrow> string \<Rightarrow> bool" where
  "match_anywhere as [] = match_here as []"
| "match_anywhere as (c # cs) = (match_here as (c # cs) \<or> match_anywhere as cs)"

text \<open>\<open>regexp.test(s)\<close>\<close>

definition test :: "regexp \<Rightarrow> string \<Rightarrow> bool" where
  "test r s = (if anchored r then match_here (atoms r) s else match_anywhere (atoms r) s)"

type_synonym matcher = "string \<Rightarrow> bool"

type_synonym engine = "string \<Rightarrow> matcher option"

definition new_RegExp :: "engine \<Rightarrow> string \<Rightarrow> error + matcher" where
  "new_RegExp engine source =
     (case compile_pattern source of
        Some r \<Rightarrow> Inr (test r)
      | None \<Rightarrow> (case engine source of None \<Rightarrow> Inl SyntaxError | Some m \<Rightarrow> Inr m))"

text \<open>
  An engine that rejects every source it is asked about. It stands for the engine
  where a query of the written-out kind is evaluated (no engine is asked then), and for
  sources every engine rejects, such as \<open>g(\<close> with its unterminated group.
\<close>

definition rejecting_engine :: engine where
  "rejecting_engine source = None"

subsection \<open>Candidates\<close>

text \<open>
  A candidate is the object literal pushed in \<open>search_index\<close>. Its field \<open>title_lc\<close>
  holds \<open>title.toLowerCase\<close>, the method itself and not its result, so every candidate
  carries the same function object. \<open>render_results\<close> later adds the property
  \<open>selected\<close>; it is absent (falsy) until then.
\<close>

datatype js_function = String_prototype_toLowerCase

record candidate =
  title :: string
  url :: string
  score :: js_number
  title_lc :: js_function
  selected :: bool

text \<open>
  A relational operator converts a function operand to its source text and compares
  the texts as strings.
\<close>

fun function_text :: "js_function \<Rightarrow> string" where
  "function_text String_prototype_toLowerCase = ''function toLowerCase() { [native code] }''"

definition js_function_lt :: "js_function \<Rightarrow> js_function \<Rightarrow> bool" where
  "js_function_lt f g = js_string_lt (function_text f) (function_text g)"

definition js_function_gt :: "js_function \<Rightarrow> js_function \<Rightarrow> bool" where
  "js_function_gt f g = js_function_lt g f"

text \<open>The score of one title (the \<open>if\<close> chain at the head of the \<open>forEach\<close> body).\<close>

definition score_of :: "matcher \<Rightarrow> matcher \<Rightarrow> string \<Rightarrow> string \<Rightarrow> js_number" where
  "score_of lead partial query t =
     (if lead t then js_times10 (js_div_length (length query) (length t))
      else if partial t then js_div_length (length query) (length t)
      else Num 0)"

text \<open>
  The \<open>forEach\<close> over \<open>Object.keys(site_index)\<close>. The index is the list of its
  (title, url) properties in the order \<open>Object.keys\<close> enumerates them; the titles of
  an object are distinct.
\<close>

fun build_list :: "matcher \<Rightarrow> matcher \<Rightarrow> string \<Rightarrow> (string \<times> string) list \<Rightarrow> candidate list" where
  "build_list lead partial query [] = []"
| "build_list lead partial query ((t, u) # rest) =
     (let sc = score_of lead partial query t in
      if js_gt sc (Num 0)
      then \<lparr>title = t, url = u, score = sc, title_lc = String_prototype_toLowerCase,
             selected = False\<rparr> # build_list lead partial query rest
      else build_list lead partial query rest)"

text \<open>
  The global \<open>site_index\<close> is supplied by the page: an object, or a variable that was
  never declared, or one that holds \<open>undefined\<close> or \<open>null\<close>.
\<close>

datatype index_binding = Undeclared | Undefined | Defined "(string \<times> string) list"

text \<open>
  The first part of \<open>search_index\<close>, up to the end of the \<open>forEach\<close>: the two
  regular expressions are built first, then \<open>Object.keys(site_index)\<close> is evaluated,
  which throws a \<open>ReferenceError\<close> for an undeclared variable and a \<open>TypeError\<close> for
  \<open>undefined\<close> or \<open>null\<close>.
\<close>

definition candidates :: "engine \<Rightarrow> index_binding \<Rightarrow> string \<Rightarrow> error + candidate list" where
  "candidates engine site_index query =
     (case new_RegExp engine (CHR ''^'' # query) of
        Inl e \<Rightarrow> Inl e
      | Inr lead \<Rightarrow>
     (case new_RegExp engine query of
        Inl e \<Rightarrow> Inl e
      | Inr partial \<Rightarrow>
     (case site_index of
        Undeclared \<Rightarrow> Inl ReferenceError
      | Undefined \<Rightarrow> Inl TypeError
      | Defined idx \<Rightarrow> Inr (build_list lead partial query idx))))"

subsection \<open>Sorting and truncation\<close>

text \<open>The comparison function handed to \<open>list.sort\<close>.\<close>

definition compare :: "candidate \<Rightarrow> candidate \<Rightarrow> int" where
  "compare a b =
     (if js_gt (score a) (score b) then - 1
      else if js_lt (score a) (score b) then 1
      else if js_function_gt (title_lc a) (title_lc b) then 1
      else if js_function_lt (title_lc a) (title_lc b) then - 1
      else 0)"

text \<open>
  \<open>Array.prototype.sort\<close> is a stable sort: elements that compare equal keep their
  order. It is written as an insertion sort that puts an element in front of the first
  later element it does not compare greater than.
\<close>

fun insert_sorted :: "('a \<Rightarrow> 'a \<Rightarrow> int) \<Rightarrow> 'a \<Rightarrow> 'a list \<Rightarrow> 'a list" where
  "insert_sorted cmp x [] = [x]"
| "insert_sorted cmp x (y # ys) =
     (if cmp x y \<le> 0 then x # y # ys else y # insert_sorted cmp x ys)"

definition array_sort :: "('a \<Rightarrow> 'a \<Rightarrow> int) \<Rightarrow> 'a list \<Rightarrow> 'a list" where
  "array_sort cmp xs = foldr (insert_sorted cmp) xs []"

text \<open>The ranked list: \<open>search_index\<close> up to the \<open>slice\<close>.\<close>

definition ranked_list :: "engine \<Rightarrow> index_binding \<Rightarrow> string \<Rightarrow> error + candidate list" where
  "ranked_list engine site_index query =
     (case candidates engine site_index query of
        Inl e \<Rightarrow> Inl e
      | Inr list \<Rightarrow>
          if 0 < length list then
            let sorted_list = array_sort compare list in
            Inr (if 10 < length sorted_list then take 10 sorted_list else sorted_list)
          else Inr list)"

subsection \<open>Rendering\<close>

text \<open>
  The page state the script reads and writes: the value of the input \<open>index_query\<close>,
  the content of the container \<open>index_results\<close> (\<open>None\<close> after \<open>update('')\<close>, the
  list items of the inserted \<open>ul\<close> otherwise) and whether it is shown, the module
  variable \<open>sel_idx\<close>, and the URL last handed to \<open>window.location.assign\<close>.
\<close>

record anchor =
  href :: string
  text_of :: string

record list_item =
  class_of :: "string option"
  link_of :: anchor

record state =
  index_query :: string
  index_results :: "list_item list option"
  results_shown :: bool
  sel_idx :: int
  location :: "string option"

definition render_link :: "candidate \<Rightarrow> anchor" where
  "render_link m = \<lparr>href = url m, text_of = title m\<rparr>"

definition render_item :: "candidate \<Rightarrow> anchor \<Rightarrow> list_item" where
  "render_item m link =
     \<lparr>class_of = (if selected m then Some ''selected'' else None), link_of = link\<rparr>"

text \<open>
  \<open>list[i]\<close>: \<open>undefined\<close> (\<open>None\<close>) outside the array. Reading or writing a property
  of \<open>undefined\<close> throws a \<open>TypeError\<close>.
\<close>

definition array_get :: "'a list \<Rightarrow> int \<Rightarrow> 'a option" where
  "array_get list i = (if 0 \<le> i \<and> i < int (length list) then Some (list ! nat i) else None)"

definition set_selected :: "candidate list \<Rightarrow> int \<Rightarrow> error + candidate list" where
  "set_selected list i =
     (case array_get list i of
        None \<Rightarrow> Inl TypeError
      | Some m \<Rightarrow> Inr (list[nat i := m\<lparr>selected := True\<rparr>]))"

definition get_url :: "candidate list \<Rightarrow> int \<Rightarrow> error + string" where
  "get_url list i = (case array_get list i of None \<Rightarrow> Inl TypeError | Some m \<Rightarrow> Inr (url m))"

definition render_results :: "candidate list \<Rightarrow> state \<Rightarrow> error + state" where
  "render_results list s =
     (case (if 0 \<le> sel_idx s \<and> sel_idx s < int (length list)
            then set_selected list (sel_idx s) else Inr list) of
        Inl e \<Rightarrow> Inl e
      | Inr marked \<Rightarrow>
          Inr (s\<lparr>index_results := Some (map (\<lambda>m. render_item m (render_link m)) marked),
                 results_shown := True\<rparr>))"

subsection \<open>The event handlers\<close>

definition clear_search_index :: "state \<Rightarrow> state" where
  "clear_search_index s = s\<lparr>index_query := [], index_results := None, results_shown := False\<rparr>"

text \<open>
  \<open>search_index(event)\<close>, with \<open>event.code\<close> as \<open>code\<close>. An exception leaves the
  handler before it has changed anything: the regular expressions and
  \<open>Object.keys(site_index)\<close> are evaluated first, and \<open>list[sel_idx]['url']\<close> is
  evaluated before \<open>window.location.assign\<close> is called.
\<close>

definition search_index :: "engine \<Rightarrow> index_binding \<Rightarrow> string \<Rightarrow> state \<Rightarrow> error + state" where
  "search_index engine site_index code s =
     (case ranked_list engine site_index (index_query s) of
        Inl e \<Rightarrow> Inl e
      | Inr list \<Rightarrow>
          if 0 < length list then
            if code = ''ArrowDown'' then
              render_results list (s\<lparr>sel_idx := min (sel_idx s + 1) (int (length list) - 1)\<rparr>)
            else if code = ''ArrowUp'' then
              render_results list (s\<lparr>sel_idx := max (sel_idx s - 1) 0\<rparr>)
            else if code = ''Enter'' then
              (case (if sel_idx s = - 1 then get_url list 0 else get_url list (sel_idx s)) of
                 Inl e \<Rightarrow> Inl e
               | Inr u \<Rightarrow> Inr (clear_search_index (s\<lparr>location := Some u\<rparr>)))
            else
              render_results list (s\<lparr>sel_idx := - 1\<rparr>)
          else Inr (s\<lparr>index_results := None, results_shown := False\<rparr>))"

text \<open>
  The events the script observes: a key released in the input (with \<open>event.code\<close> and
  the text the input holds at that moment), a click anywhere in the document, and the
  \<open>/\<close> key binding.
\<close>

datatype event = KeyUp string string | Click | Slash

fun handle :: "engine \<Rightarrow> index_binding \<Rightarrow> event \<Rightarrow> state \<Rightarrow> error + state" where
  "handle engine site_index (KeyUp code text) s =
     search_index engine site_index code (s\<lparr>index_query := text\<rparr>)"
| "handle engine site_index Click s = Inr (clear_search_index s)"
| "handle engine site_index Slash s = Inr (clear_search_index s)"

text \<open>
  The state once the page has loaded: \<open>sel_idx\<close> is \<open>- 1\<close> and \<open>clear_search_index\<close>
  has run.
\<close>

definition initial :: state where
  "initial = \<lparr>index_query = [], index_results = None, results_shown = False, sel_idx = - 1,
              location = None\<rparr>"

text \<open>
  A run of events. An exception ends one handler and the page goes on with the next
  event; the handlers throw before they change anything, so the state is the one
  before the event, with the text the key release found in the input.
\<close>

fun run :: "engine \<Rightarrow> index_binding \<Rightarrow> event list \<Rightarrow> state \<Rightarrow> state" where
  "run engine site_index [] s = s"
| "run engine site_index (ev # evs) s =
     (case handle engine site_index ev s of
        Inr s' \<Rightarrow> run engine site_index evs s'
      | Inl e \<Rightarrow> run engine site_index evs
          (case ev of KeyUp code text \<Rightarrow> s\<lparr>index_query := text\<rparr> | _ \<Rightarrow> s))"

text \<open>The entries on display: none when the container has been emptied.\<close>

definition current_list :: "state \<Rightarrow> list_item list" where
  "current_list s = (case index_results s of None \<Rightarrow> [] | Some items \<Rightarrow> items)"

subsection \<open>The specification's notions\<close>

text \<open>
  Case-insensitive prefix and substring, by lower-casing both strings, and the score
  the specification assigns, in the script's arithmetic.
\<close>

definition starts_with_ci :: "string \<Rightarrow> string \<Rightarrow> bool" where
  "starts_with_ci q t = prefix (toLowerCase q) (toLowerCase t)"

definition contains_ci :: "string \<Rightarrow> string \<Rightarrow> bool" where
  "contains_ci q t = sublist (toLowerCase q) (toLowerCase t)"

definition spec_score :: "string \<Rightarrow> string \<Rightarrow> js_number" where
  "spec_score q t =
     (if starts_with_ci q t then js_times10 (js_div_length (length q) (length t))
      else if contains_ci q t then js_div_length (length q) (length t)
      else Num 0)"

text \<open>A query without syntax characters: every character stands for itself.\<close>

definition literal_query :: "string \<Rightarrow> bool" where
  "literal_query q = list_all (\<lambda>c. \<not> syntax_character c) q"

text \<open>
  A proof device: a rational key under which the descending order of positive scores
  is the ascending order of the keys.
\<close>

definition rank_key :: "candidate \<Rightarrow> rat" where
  "rank_key m = (case score m of Num r \<Rightarrow> inverse r | _ \<Rightarrow> 0)"

section \<open>Auxiliary facts\<close>

subsection \<open>Rounding keeps a positive number positive\<close>

lemma binade_le:
  assumes "0 < x"
  shows "power_int 2 (binade x) \<le> x"
proof -
  obtain n d where q: "quotient_of x = (n, d)" by (cases "quotient_of x")
  have d: "0 < d" using q by (rule quotient_of_denom_pos)
  have x: "x = of_int n / of_int d" using q by (rule quotient_of_div)
  have n: "0 < n" using assms d x by (simp add: zero_less_divide_iff)
  define a where "a = bitlen n"
  define b where "b = bitlen d"
  have a1: "1 \<le> a" using n by (simp add: a_def bitlen_alt_def)
  have b1: "1 \<le> b" using d by (simp add: b_def bitlen_alt_def)
  have "2 ^ nat (a - 1) \<le> n" using bitlen_bounds [OF n] by (simp add: a_def)
  then have "(of_int (2 ^ nat (a - 1)) :: rat) \<le> of_int n" by (simp only: of_int_le_iff)
  then have lo: "power_int (2::rat) (a - 1) \<le> of_int n"
    using a1 by (simp add: power_int_def)
  have "d < 2 ^ nat b" using bitlen_bounds [OF d] by (simp add: b_def)
  then have "(of_int d :: rat) < of_int (2 ^ nat b)" by (simp only: of_int_less_iff)
  then have hi: "(of_int d :: rat) < power_int 2 b"
    using b1 by (simp add: power_int_def)
  have ab: "a - b - 1 = a - 1 - b" by simp
  have "power_int (2::rat) (a - b - 1) = power_int 2 (a - 1) / power_int 2 b"
    unfolding ab by (simp add: power_int_diff)
  also have "\<dots> \<le> of_int n / power_int 2 b"
    using lo by (simp add: divide_right_mono)
  also have "\<dots> \<le> of_int n / of_int d"
    using hi d n by (simp add: frac_le)
  finally have low: "power_int (2::rat) (a - b - 1) \<le> x" using x by simp
  show ?thesis
    using low q by (simp add: binade_def a_def b_def Let_def)
qed

lemma round_even_ge_floor: "\<lfloor>x\<rfloor> \<le> round_even x"
  by (simp add: round_even_def Let_def)

lemma fl_pos:
  assumes "0 < x"
  shows "0 < fl x"
proof -
  define e where "e = binade x - 52"
  have "power_int 2 e \<le> power_int (2::rat) (binade x)"
    by (simp add: e_def power_int_increasing)
  then have "power_int 2 e \<le> x" using binade_le [OF assms] by simp
  then have "1 \<le> x * power_int 2 (- e)"
    by (simp add: power_int_minus field_simps)
  then have "1 \<le> \<lfloor>x * power_int 2 (- e)\<rfloor>" by simp
  then have "1 \<le> round_even (x * power_int 2 (- e))"
    using round_even_ge_floor [of "x * power_int 2 (- e)"] by linarith
  then have "0 < (of_int (round_even (x * power_int 2 (- e))) :: rat) * power_int 2 e"
    by (simp add: zero_less_mult_iff)
  then show ?thesis using assms by (simp add: fl_def e_def Let_def)
qed

lemma fl_zero: "fl 0 = 0"
  by (simp add: fl_def)

lemma js_div_length_pos:
  "0 < q \<Longrightarrow> 0 < t \<Longrightarrow> \<exists>r. js_div_length q t = Num r \<and> 0 < r"
  by (simp add: js_div_length_def fl_pos)

lemma js_gt_div_length:
  "0 < q \<Longrightarrow> 0 < t \<Longrightarrow> js_gt (js_div_length q t) (Num 0)"
  using js_div_length_pos [of q t] by auto

lemma js_gt_times10_div_length:
  "0 < q \<Longrightarrow> 0 < t \<Longrightarrow> js_gt (js_times10 (js_div_length q t)) (Num 0)"
  using js_div_length_pos [of q t] by (auto simp: fl_pos)

subsection \<open>Case folding and patterns without syntax characters\<close>

lemma of_char_minus_32: "((of_char c :: nat) - 32) mod 256 = of_char c - 32"
  by (simp add: less_imp_diff_less)

lemma of_char_canonicalize:
  "(of_char (canonicalize c) :: nat) = (let n = of_char c in
     if (97 \<le> n \<and> n \<le> 122) \<or> (224 \<le> n \<and> n \<le> 254 \<and> n \<noteq> 247) then n - 32 else n)"
  by (simp add: canonicalize_def Let_def of_char_minus_32)

lemma of_char_toLowerCase_char:
  "(of_char (toLowerCase_char c) :: nat) = (let n = of_char c in
     if (65 \<le> n \<and> n \<le> 90) \<or> (192 \<le> n \<and> n \<le> 222 \<and> n \<noteq> 215) then n + 32 else n)"
  using nat_of_char_less_256 [of c] by (simp add: toLowerCase_char_def Let_def)

lemma lower_canon: "toLowerCase_char (canonicalize c) = toLowerCase_char c"
proof (rule of_char_eqI [where ?'a = nat])
  show "(of_char (toLowerCase_char (canonicalize c)) :: nat) = of_char (toLowerCase_char c)"
    unfolding of_char_toLowerCase_char of_char_canonicalize Let_def
    by (cases "97 \<le> (of_char c :: nat) \<and> (of_char c :: nat) \<le> 122";
        cases "224 \<le> (of_char c :: nat) \<and> (of_char c :: nat) \<le> 254 \<and> (of_char c :: nat) \<noteq> 247") auto
qed

lemma canon_lower: "canonicalize (toLowerCase_char c) = canonicalize c"
proof (rule of_char_eqI [where ?'a = nat])
  show "(of_char (canonicalize (toLowerCase_char c)) :: nat) = of_char (canonicalize c)"
    unfolding of_char_toLowerCase_char of_char_canonicalize Let_def
    by (cases "65 \<le> (of_char c :: nat) \<and> (of_char c :: nat) \<le> 90";
        cases "192 \<le> (of_char c :: nat) \<and> (of_char c :: nat) \<le> 222 \<and> (of_char c :: nat) \<noteq> 215") auto
qed

lemma fold_eq_iff:
  "canonicalize a = canonicalize b \<longleftrightarrow> toLowerCase_char a = toLowerCase_char b"
  by (metis lower_canon canon_lower)

lemma compile_atoms_literal:
  "literal_query q \<Longrightarrow> compile_atoms q = Some (map Literal q)"
  by (induction q) (auto simp: literal_query_def syntax_character_def)

lemma compile_pattern_literal:
  assumes "literal_query q"
  shows "compile_pattern q = Some \<lparr>anchored = False, atoms = map Literal q\<rparr>"
proof (cases q)
  case Nil
  then show ?thesis by simp
next
  case (Cons c cs)
  have "c \<noteq> CHR ''^''"
    using assms Cons by (simp add: literal_query_def syntax_character_def)
  then have "compile_pattern (c # cs) =
      map_option (\<lambda>as. \<lparr>anchored = False, atoms = as\<rparr>) (compile_atoms (c # cs))"
    by (simp del: compile_atoms.simps)
  then show ?thesis
    using compile_atoms_literal [OF assms] Cons by simp
qed

lemma compile_pattern_lead_literal:
  "literal_query q \<Longrightarrow>
     compile_pattern (CHR ''^'' # q) = Some \<lparr>anchored = True, atoms = map Literal q\<rparr>"
  by (simp add: compile_pattern_literal del: compile_atoms.simps)

lemma new_RegExp_literal:
  "literal_query q \<Longrightarrow>
     new_RegExp engine q = Inr (test \<lparr>anchored = False, atoms = map Literal q\<rparr>)"
  by (simp add: new_RegExp_def compile_pattern_literal)

lemma new_RegExp_lead_literal:
  "literal_query q \<Longrightarrow>
     new_RegExp engine (CHR ''^'' # q) = Inr (test \<lparr>anchored = True, atoms = map Literal q\<rparr>)"
  by (simp add: new_RegExp_def compile_pattern_lead_literal del: compile_pattern.simps)

lemma match_here_literal:
  "match_here (map Literal q) t \<longleftrightarrow> prefix (toLowerCase q) (toLowerCase t)"
  by (induction "map Literal q" t arbitrary: q rule: match_here.induct)
     (auto simp: toLowerCase_def fold_eq_iff)

lemma match_anywhere_literal:
  "match_anywhere (map Literal q) t \<longleftrightarrow> sublist (toLowerCase q) (toLowerCase t)"
proof (induction t)
  case Nil
  then show ?case by (cases q) (simp_all add: toLowerCase_def)
next
  case (Cons c cs)
  have "sublist (toLowerCase q) (toLowerCase (c # cs)) \<longleftrightarrow>
        prefix (toLowerCase q) (toLowerCase (c # cs)) \<or> sublist (toLowerCase q) (toLowerCase cs)"
    by (simp add: toLowerCase_def sublist_Cons_right)
  with Cons show ?case by (simp add: match_here_literal)
qed

subsection \<open>Scores of queries without syntax characters\<close>

lemma test_lead_literal:
  "test \<lparr>anchored = True, atoms = map Literal q\<rparr> t \<longleftrightarrow> starts_with_ci q t"
  by (simp add: test_def starts_with_ci_def match_here_literal)

lemma test_partial_literal:
  "test \<lparr>anchored = False, atoms = map Literal q\<rparr> t \<longleftrightarrow> contains_ci q t"
  by (simp add: test_def contains_ci_def match_anywhere_literal)

lemma score_of_literal:
  "score_of (test \<lparr>anchored = True, atoms = map Literal q\<rparr>)
       (test \<lparr>anchored = False, atoms = map Literal q\<rparr>) q t = spec_score q t"
  by (simp add: score_of_def spec_score_def test_lead_literal test_partial_literal)

lemma starts_with_imp_contains: "starts_with_ci q t \<Longrightarrow> contains_ci q t"
  by (simp add: starts_with_ci_def contains_ci_def)

lemma contains_ci_length: "contains_ci q t \<Longrightarrow> length q \<le> length t"
  using sublist_length_le [of "toLowerCase q" "toLowerCase t"]
  by (simp add: contains_ci_def toLowerCase_def)

lemma spec_score_pos_iff:
  assumes "q \<noteq> []"
  shows "js_gt (spec_score q t) (Num 0) \<longleftrightarrow> contains_ci q t"
proof (cases "contains_ci q t")
  case True
  have q: "0 < length q" using assms by simp
  have t: "0 < length t" using contains_ci_length [OF True] assms by (cases t) simp_all
  show ?thesis
    using True q t by (simp add: spec_score_def js_gt_div_length js_gt_times10_div_length)
next
  case False
  then have "\<not> starts_with_ci q t" using starts_with_imp_contains by blast
  with False show ?thesis by (simp add: spec_score_def)
qed

lemma title_build_list:
  "t \<in> title ` set (build_list lead partial q idx) \<longleftrightarrow>
     t \<in> fst ` set idx \<and> js_gt (score_of lead partial q t) (Num 0)"
  by (induction idx) (auto simp: Let_def split: if_splits)

lemma candidates_literal:
  "literal_query q \<Longrightarrow> candidates engine (Defined idx) q =
     Inr (build_list (test \<lparr>anchored = True, atoms = map Literal q\<rparr>)
            (test \<lparr>anchored = False, atoms = map Literal q\<rparr>) q idx)"
  by (simp add: candidates_def new_RegExp_literal new_RegExp_lead_literal)

lemma build_list_no_match:
  "\<forall>t \<in> fst ` set idx. \<not> lead t \<and> \<not> partial t \<Longrightarrow> build_list lead partial q idx = []"
  by (induction idx) (auto simp: Let_def score_of_def)

lemma build_list_empty_query: "build_list lead partial [] idx = []"
  by (induction idx) (auto simp: Let_def score_of_def js_div_length_def fl_zero)

lemma candidates_empty_query: "candidates engine (Defined idx) [] = Inr []"
  by (simp add: candidates_def new_RegExp_def build_list_empty_query)

lemma build_list_score_positive:
  "\<forall>m \<in> set (build_list lead partial q idx). js_gt (score m) (Num 0)"
  by (induction idx) (auto simp: Let_def split: if_splits)

lemma candidates_score_positive:
  "candidates engine site_index q = Inr cs \<Longrightarrow> \<forall>m \<in> set cs. js_gt (score m) (Num 0)"
  using build_list_score_positive
  by (auto simp: candidates_def split: sum.splits index_binding.splits)

lemma build_list_unselected: "\<forall>m \<in> set (build_list lead partial q idx). \<not> selected m"
  by (induction idx) (auto simp: Let_def split: if_splits)

lemma candidates_unselected:
  "candidates engine site_index q = Inr cs \<Longrightarrow> \<forall>m \<in> set cs. \<not> selected m"
  using build_list_unselected
  by (auto simp: candidates_def split: sum.splits index_binding.splits)

subsection \<open>Sorting and truncation\<close>

lemma length_insert_sorted: "length (insert_sorted cmp x xs) = Suc (length xs)"
  by (induction xs) simp_all

lemma length_array_sort: "length (array_sort cmp xs) = length xs"
  by (induction xs) (simp_all add: array_sort_def length_insert_sorted)

lemma array_sort_Nil: "array_sort cmp [] = []"
  by (simp add: array_sort_def)

lemma set_insert_sorted: "set (insert_sorted cmp x xs) = insert x (set xs)"
  by (induction xs) auto

lemma set_array_sort: "set (array_sort cmp xs) = set xs"
  by (induction xs) (simp_all add: array_sort_def set_insert_sorted)

lemma ranked_list_take:
  assumes "ranked_list engine site_index q = Inr l"
  shows "\<exists>cs. candidates engine site_index q = Inr cs \<and> l = take 10 (array_sort compare cs)"
proof (cases "candidates engine site_index q")
  case (Inl e)
  with assms show ?thesis by (simp add: ranked_list_def)
next
  case (Inr cs)
  with assms have "l = take 10 (array_sort compare cs)"
    by (cases cs) (auto simp: ranked_list_def Let_def array_sort_Nil split: if_splits)
  with Inr show ?thesis by simp
qed

lemma ranked_list_Nil_iff: "ranked_list engine site_index q = Inr [] \<longleftrightarrow> candidates engine site_index q = Inr []"
  by (cases "candidates engine site_index q")
     (auto simp: ranked_list_def Let_def dest: arg_cong [where f = length]
           simp: length_array_sort split: if_splits)


lemma ranked_list_unselected:
  assumes "ranked_list engine site_index q = Inr l"
  shows "\<forall>m \<in> set l. \<not> selected m"
proof -
  obtain cs where cs: "candidates engine site_index q = Inr cs" and l: "l = take 10 (array_sort compare cs)"
    using ranked_list_take [OF assms] by blast
  have "set l \<subseteq> set cs" unfolding l using set_take_subset [of 10 "array_sort compare cs"]
    by (simp add: set_array_sort)
  then show ?thesis using candidates_unselected [OF cs] by blast
qed

text \<open>
  The comparison function never tells two titles apart: the two \<open>title_lc\<close> operands
  are the same function, so candidates with equal scores compare as equal, and the
  ranked list is ordered by descending score only.
\<close>

lemma js_string_lt_irrefl: "\<not> js_string_lt s s"
  by (induction s) simp_all

lemma js_function_lt_never: "\<not> js_function_lt f g"
  by (cases f; cases g) (simp add: js_function_lt_def js_string_lt_irrefl)

lemma js_gt_asym: "js_gt a b \<Longrightarrow> \<not> js_gt b a"
  by (cases a; cases b) simp_all

lemma js_gt_total: "a \<noteq> NaN \<Longrightarrow> b \<noteq> NaN \<Longrightarrow> js_gt a b \<or> a = b \<or> js_gt b a"
  by (cases a; cases b) auto

lemma js_not_gt_trans:
  "b \<noteq> NaN \<Longrightarrow> \<not> js_gt b a \<Longrightarrow> \<not> js_gt c b \<Longrightarrow> \<not> js_gt c a"
  by (cases a; cases b; cases c) auto

lemma compare_le_0_iff: "compare a b \<le> 0 \<longleftrightarrow> \<not> js_lt (score a) (score b)"
  using js_gt_asym [of "score a" "score b"]
  by (auto simp: compare_def js_lt_def js_function_gt_def js_function_lt_never)

lemma compare_tie:
  "\<not> js_gt (score a) (score b) \<Longrightarrow> \<not> js_lt (score a) (score b) \<Longrightarrow> compare a b = 0"
  by (simp add: compare_def js_function_gt_def js_function_lt_never)

lemma sorted_insert_sorted:
  assumes "sorted_wrt (\<lambda>a b. \<not> js_lt (score a) (score b)) xs"
    and "\<forall>y \<in> set xs. score y \<noteq> NaN"
  shows "sorted_wrt (\<lambda>a b. \<not> js_lt (score a) (score b)) (insert_sorted compare x xs)"
  using assms
proof (induction xs)
  case Nil
  then show ?case by simp
next
  case (Cons y ys)
  show ?case
  proof (cases "compare x y \<le> 0")
    case True
    then have xy: "\<not> js_gt (score y) (score x)" by (simp add: compare_le_0_iff js_lt_def)
    have "\<forall>z \<in> set ys. \<not> js_gt (score z) (score x)"
    proof
      fix z assume "z \<in> set ys"
      then have "\<not> js_gt (score z) (score y)" using Cons.prems(1) by (simp add: js_lt_def)
      moreover have "score y \<noteq> NaN" using Cons.prems(2) by simp
      ultimately show "\<not> js_gt (score z) (score x)" using xy js_not_gt_trans by blast
    qed
    with True xy Cons.prems(1) show ?thesis by (simp add: js_lt_def)
  next
    case False
    then have "js_gt (score y) (score x)" by (simp add: compare_le_0_iff js_lt_def)
    then have yx: "\<not> js_lt (score y) (score x)" by (simp add: js_lt_def js_gt_asym)
    have "sorted_wrt (\<lambda>a b. \<not> js_lt (score a) (score b)) (insert_sorted compare x ys)"
      using Cons by simp
    with False yx Cons.prems(1) show ?thesis by (simp add: set_insert_sorted)
  qed
qed

lemma sorted_array_sort:
  "\<forall>y \<in> set xs. score y \<noteq> NaN \<Longrightarrow>
     sorted_wrt (\<lambda>a b. \<not> js_lt (score a) (score b)) (array_sort compare xs)"
proof (induction xs)
  case Nil
  then show ?case by (simp add: array_sort_def)
next
  case (Cons x xs)
  then have "sorted_wrt (\<lambda>a b. \<not> js_lt (score a) (score b)) (array_sort compare xs)" by simp
  moreover have "\<forall>y \<in> set (array_sort compare xs). score y \<noteq> NaN"
    using Cons.prems by (simp add: set_array_sort)
  ultimately have "sorted_wrt (\<lambda>a b. \<not> js_lt (score a) (score b))
      (insert_sorted compare x (array_sort compare xs))"
    by (rule sorted_insert_sorted)
  then show ?case by (simp add: array_sort_def)
qed

lemma ranked_list_score_descending:
  assumes "ranked_list engine site_index q = Inr l" and "Suc i < length l"
  shows "js_gt (score (l ! i)) (score (l ! Suc i)) \<or> score (l ! i) = score (l ! Suc i)"
proof -
  obtain cs where cs: "candidates engine site_index q = Inr cs" and l: "l = take 10 (array_sort compare cs)"
    using ranked_list_take [OF assms(1)] by blast
  have pos: "\<forall>m \<in> set cs. js_gt (score m) (Num 0)"
    using cs by (rule candidates_score_positive)
  then have nn: "\<forall>m \<in> set cs. score m \<noteq> NaN" by auto
  then have "sorted_wrt (\<lambda>a b. \<not> js_lt (score a) (score b)) (array_sort compare cs)"
    by (rule sorted_array_sort)
  then have "sorted_wrt (\<lambda>a b. \<not> js_lt (score a) (score b)) l"
    unfolding l by (rule sorted_wrt_take)
  then have "\<not> js_lt (score (l ! i)) (score (l ! Suc i))"
    using assms(2) by (simp add: sorted_wrt_iff_nth_less)
  moreover have "set l \<subseteq> set cs"
    unfolding l using set_take_subset [of 10 "array_sort compare cs"] by (simp add: set_array_sort)
  then have "score (l ! i) \<noteq> NaN" "score (l ! Suc i) \<noteq> NaN"
    using nn assms(2) by (auto simp: subset_iff)
  ultimately show ?thesis
    using js_gt_total [of "score (l ! i)" "score (l ! Suc i)"] by (auto simp: js_lt_def)
qed

text \<open>
  The sorted list is the only arrangement of the candidates that is in descending
  order of score and keeps candidates of equal score in their order: whichever stable
  sort an engine uses, the result is the same.
\<close>

lemma ranked_list_of_candidates:
  assumes "candidates engine site_index q = Inr cs"
  shows "ranked_list engine site_index q = Inr (take 10 (array_sort compare cs))"
proof (cases cs)
  case Nil
  with assms show ?thesis by (simp add: ranked_list_def array_sort_Nil)
next
  case (Cons c cs')
  with assms show ?thesis
    by (simp add: ranked_list_def Let_def length_array_sort)
qed

lemma mset_insert_sorted: "mset (insert_sorted cmp x xs) = add_mset x (mset xs)"
  by (induction xs) simp_all

lemma mset_array_sort: "mset (array_sort cmp xs) = mset xs"
  by (induction xs) (simp_all add: array_sort_def mset_insert_sorted)

lemma rank_key_le_iff:
  assumes "js_gt (score a) (Num 0)" and "js_gt (score b) (Num 0)"
  shows "rank_key a \<le> rank_key b \<longleftrightarrow> \<not> js_lt (score a) (score b)"
proof (cases "score a")
  case NaN
  with assms show ?thesis by simp
next
  case PosInf
  then show ?thesis
    using assms(2) by (cases "score b") (simp_all add: rank_key_def js_lt_def)
next
  case (Num ra)
  then have ra: "0 < ra" using assms(1) by simp
  show ?thesis
  proof (cases "score b")
    case NaN
    with assms show ?thesis by simp
  next
    case PosInf
    with Num ra show ?thesis by (simp add: rank_key_def js_lt_def not_le)
  next
    case (Num rb)
    then have rb: "0 < rb" using assms(2) by simp
    have "inverse ra \<le> inverse rb \<longleftrightarrow> rb \<le> ra"
      using ra rb by (rule inverse_le_iff_le)
    with \<open>score a = Num ra\<close> Num show ?thesis
      by (auto simp: rank_key_def js_lt_def)
  qed
qed

lemma rank_key_eq_iff:
  assumes "js_gt (score a) (Num 0)" and "js_gt (score b) (Num 0)"
  shows "rank_key a = rank_key b \<longleftrightarrow> score a = score b"
proof (cases "score a")
  case NaN
  with assms show ?thesis by simp
next
  case PosInf
  then show ?thesis
    using assms(2) by (cases "score b") (auto simp: rank_key_def)
next
  case (Num ra)
  then have ra: "0 < ra" using assms(1) by simp
  show ?thesis
  proof (cases "score b")
    case NaN
    with assms show ?thesis by simp
  next
    case PosInf
    with Num ra show ?thesis by (auto simp: rank_key_def)
  next
    case (Num rb)
    with \<open>score a = Num ra\<close> show ?thesis by (simp add: rank_key_def)
  qed
qed

lemma insert_sorted_insort_key:
  assumes "js_gt (score x) (Num 0)" and "\<forall>y \<in> set ys. js_gt (score y) (Num 0)"
  shows "insert_sorted compare x ys = insort_key rank_key x ys"
  using assms(2)
proof (induction ys)
  case Nil
  then show ?case by simp
next
  case (Cons y ys)
  have "compare x y \<le> 0 \<longleftrightarrow> rank_key x \<le> rank_key y"
    using assms(1) Cons.prems by (simp add: compare_le_0_iff rank_key_le_iff)
  with Cons show ?case by simp
qed

lemma array_sort_sort_key:
  "\<forall>y \<in> set xs. js_gt (score y) (Num 0) \<Longrightarrow> array_sort compare xs = sort_key rank_key xs"
proof (induction xs)
  case Nil
  then show ?case by (simp add: array_sort_def)
next
  case (Cons x xs)
  then have ih: "array_sort compare xs = sort_key rank_key xs" by simp
  have "\<forall>y \<in> set (array_sort compare xs). js_gt (score y) (Num 0)"
    using Cons.prems by (simp add: set_array_sort)
  then have "insert_sorted compare x (array_sort compare xs)
      = insort_key rank_key x (array_sort compare xs)"
    using Cons.prems by (simp add: insert_sorted_insort_key)
  then show ?case using ih by (simp add: array_sort_def)
qed

lemma array_sort_unique:
  assumes pos: "\<forall>y \<in> set cs. js_gt (score y) (Num 0)"
    and perm: "mset ys = mset cs"
    and sorted: "sorted_wrt (\<lambda>a b. \<not> js_lt (score a) (score b)) ys"
    and stable: "\<forall>m \<in> set ys. filter (\<lambda>x. score x = score m) ys = filter (\<lambda>x. score x = score m) cs"
  shows "array_sort compare cs = ys"
proof -
  have set_eq: "set ys = set cs" using perm by (rule mset_eq_setD)
  have pos_ys: "\<forall>y \<in> set ys. js_gt (score y) (Num 0)" using pos set_eq by simp
  have "sort_key rank_key cs = ys"
  proof (rule properties_for_sort_key)
    show "mset ys = mset cs" by (rule perm)
  next
    fix k assume k: "k \<in> set ys"
    have "filter (\<lambda>x. rank_key k = rank_key x) ys = filter (\<lambda>x. score x = score k) ys"
      using pos_ys k by (intro filter_cong refl) (auto simp: rank_key_eq_iff)
    also have "\<dots> = filter (\<lambda>x. score x = score k) cs" using stable k by blast
    also have "\<dots> = filter (\<lambda>x. rank_key k = rank_key x) cs"
      using pos pos_ys k by (intro filter_cong refl) (auto simp: rank_key_eq_iff)
    finally show "filter (\<lambda>x. rank_key k = rank_key x) ys = filter (\<lambda>x. rank_key k = rank_key x) cs" .
  next
    have "sorted_wrt (\<lambda>a b. rank_key a \<le> rank_key b) ys"
      using sorted pos_ys
      by (rule_tac sorted_wrt_mono_rel [where P = "\<lambda>a b. \<not> js_lt (score a) (score b)"])
         (auto simp: rank_key_le_iff)
    then show "sorted (map rank_key ys)" by (simp add: sorted_map)
  qed
  then show ?thesis using pos by (simp add: array_sort_sort_key)
qed

subsection \<open>Rendering and the handlers\<close>

lemma render_results_in_range:
  assumes "0 \<le> sel_idx s" and "sel_idx s < int (length list)"
  shows "render_results list s =
     Inr (s\<lparr>index_results := Some (map (\<lambda>m. render_item m (render_link m))
                (list[nat (sel_idx s) := (list ! nat (sel_idx s))\<lparr>selected := True\<rparr>])),
            results_shown := True\<rparr>)"
  using assms by (simp add: render_results_def set_selected_def array_get_def)

lemma render_results_out_of_range:
  assumes "\<not> (0 \<le> sel_idx s \<and> sel_idx s < int (length list))"
  shows "render_results list s =
     Inr (s\<lparr>index_results := Some (map (\<lambda>m. render_item m (render_link m)) list),
            results_shown := True\<rparr>)"
  using assms by (auto simp: render_results_def)

lemma render_results_total:
  "\<exists>items. render_results list s = Inr (s\<lparr>index_results := Some items, results_shown := True\<rparr>)
     \<and> length items = length list \<and> map link_of items = map render_link list"
proof (cases "0 \<le> sel_idx s \<and> sel_idx s < int (length list)")
  case True
  let ?items = "map (\<lambda>m. render_item m (render_link m))
          (list[nat (sel_idx s) := (list ! nat (sel_idx s))\<lparr>selected := True\<rparr>])"
  have r: "render_results list s = Inr (s\<lparr>index_results := Some ?items, results_shown := True\<rparr>)"
    using True by (simp add: render_results_in_range)
  have l: "length ?items = length list" by simp
  have m: "map link_of ?items = map render_link list"
    using True
    by (intro nth_equalityI) (auto simp: nth_list_update render_item_def render_link_def)
  from r l m show ?thesis by blast
next
  case False
  let ?items = "map (\<lambda>m. render_item m (render_link m)) list"
  have r: "render_results list s = Inr (s\<lparr>index_results := Some ?items, results_shown := True\<rparr>)"
    using False by (simp add: render_results_out_of_range)
  have l: "length ?items = length list" by simp
  have m: "map link_of ?items = map render_link list"
    by (simp add: render_item_def)
  from r l m show ?thesis by blast
qed


lemma sel_idx_clear_search_index: "sel_idx (clear_search_index s) = sel_idx s"
  by (simp add: clear_search_index_def)




lemma no_match_pass:
  assumes "ranked_list engine site_index (index_query s) = Inr []"
  shows "search_index engine site_index c s = Inr (s\<lparr>index_results := None, results_shown := False\<rparr>)"
  using assms by (simp add: search_index_def)

lemma ordinary_key_pass:
  assumes "ranked_list engine site_index (index_query s) = Inr r" and "r \<noteq> []"
    and "c \<noteq> ''ArrowDown''" and "c \<noteq> ''ArrowUp''" and "c \<noteq> ''Enter''"
  shows "\<exists>items. search_index engine site_index c s =
           Inr (s\<lparr>sel_idx := - 1, index_results := Some items, results_shown := True\<rparr>)
         \<and> length items = length r"
proof -
  have "search_index engine site_index c s = render_results r (s\<lparr>sel_idx := - 1\<rparr>)"
    using assms by (simp add: search_index_def)
  then show ?thesis
    using render_results_total [of r "s\<lparr>sel_idx := - 1\<rparr>"] by auto
qed


lemma search_index_shows:
  assumes "c \<noteq> ''Enter''"
  shows "map_sum id (\<lambda>t. map link_of (current_list t)) (search_index engine site_index c s) =
         map_sum id (map render_link) (ranked_list engine site_index (index_query s))"
proof (cases "ranked_list engine site_index (index_query s)")
  case (Inl e)
  then show ?thesis by (simp add: search_index_def)
next
  case (Inr r)
  show ?thesis
  proof (cases "r = []")
    case True
    with Inr show ?thesis by (simp add: search_index_def current_list_def)
  next
    case False
    define s' where "s' = (if c = ''ArrowDown'' then s\<lparr>sel_idx := min (sel_idx s + 1) (int (length r) - 1)\<rparr>
        else if c = ''ArrowUp'' then s\<lparr>sel_idx := max (sel_idx s - 1) 0\<rparr> else s\<lparr>sel_idx := - 1\<rparr>)"
    have si: "search_index engine site_index c s = render_results r s'"
      using Inr False assms by (simp add: search_index_def s'_def)
    obtain items where "render_results r s' = Inr (s'\<lparr>index_results := Some items, results_shown := True\<rparr>)"
      and "map link_of items = map render_link r"
      using render_results_total [of r s'] by blast
    with si Inr show ?thesis by (simp add: current_list_def)
  qed
qed

text \<open>
  \<open>Enter\<close> with a cursor that is none or inside the ranked list: the handler navigates
  to the first or to the selected entry, then clears the query and hides the results.
\<close>

lemma enter_navigates:
  assumes "ranked_list engine site_index (index_query s) = Inr l" and "l \<noteq> []"
    and "sel_idx s = - 1 \<or> (0 \<le> sel_idx s \<and> sel_idx s < int (length l))"
  shows "search_index engine site_index ''Enter'' s =
     Inr (s\<lparr>index_query := [], index_results := None, results_shown := False,
            location := Some (url (if sel_idx s = - 1 then l ! 0 else l ! nat (sel_idx s)))\<rparr>)"
  using assms by (auto simp: search_index_def get_url_def array_get_def clear_search_index_def)

section \<open>The claims\<close>

text \<open>
  C1 (as amended). For every non-empty query without regular expression syntax
  characters and every title of the index, the title is in the candidate list built by
  \<open>search_index\<close> if and only if it contains the query case-insensitively. (The empty
  query lists nothing, although every title contains it, and a query with syntax
  characters is matched as a pattern.)
\<close>

theorem candidates_sound_complete:
  assumes "literal_query q" and "q \<noteq> []" and "(t, u) \<in> set idx"
  shows "\<exists>l. candidates engine (Defined idx) q = Inr l \<and>
             (t \<in> title ` set l \<longleftrightarrow> contains_ci q t)"
proof -
  have "t \<in> fst ` set idx" using assms(3) by force
  then show ?thesis
    using assms(1,2)
    by (simp add: candidates_literal title_build_list score_of_literal spec_score_pos_iff)
qed

theorem candidates_sound_complete_witness:
  "literal_query ''go'' \<and> ''go'' \<noteq> [] \<and>
   (''Dragon'', ''/dragon'') \<in> set [(''Goblin'', ''/goblin''), (''Dragon'', ''/dragon'')] \<and>
   (\<exists>l. candidates rejecting_engine
          (Defined [(''Goblin'', ''/goblin''), (''Dragon'', ''/dragon'')]) ''go'' = Inr l \<and>
        (''Dragon'' \<in> title ` set l \<longleftrightarrow> contains_ci ''go'' ''Dragon''))"
proof -
  have h1: "literal_query ''go''" by code_simp
  have h2: "''go'' \<noteq> []" by simp
  have h3: "(''Dragon'', ''/dragon'') \<in> set [(''Goblin'', ''/goblin''), (''Dragon'', ''/dragon'')]"
    by simp
  show ?thesis
    using h1 h2 h3 candidates_sound_complete [OF h1 h2 h3, of rejecting_engine] by blast
qed

text \<open>
  C1 as stated fails in both directions. For the empty query the title \<open>a\<close> contains
  the query and is not listed; for the query \<open>.\<close> the title \<open>ab\<close> is listed and does
  not contain a full stop.
\<close>

theorem empty_query_counterexample:
  "candidates rejecting_engine (Defined [(''a'', ''/a'')]) [] = Inr [] \<and> contains_ci [] ''a'' \<and>
   candidates rejecting_engine (Defined [(''ab'', ''/ab'')]) ''.'' =
     Inr [\<lparr>title = ''ab'', url = ''/ab'', score = Num 5,
           title_lc = String_prototype_toLowerCase, selected = False\<rparr>] \<and>
   \<not> contains_ci ''.'' ''ab''"
  by code_simp

text \<open>
  C2. The ranked list is sorted by descending score (\<open>ranked_list_score_descending\<close>),
  but equal scores are not ordered by title: for the index \<open>Gorgon\<close>, \<open>Goblin\<close> and the
  query \<open>Go\<close> both titles score \<open>(2 / 6) * 10\<close> and \<open>Gorgon\<close> stays in front, although
  \<open>goblin\<close> is the smaller lower-case title.
\<close>

theorem tie_keeps_index_order:
  "ranked_list rejecting_engine (Defined [(''Gorgon'', ''/gorgon''), (''Goblin'', ''/goblin'')]) ''Go'' =
     Inr [\<lparr>title = ''Gorgon'', url = ''/gorgon'', score = Num (3752999689475413 / 1125899906842624), title_lc = String_prototype_toLowerCase, selected = False\<rparr>,
          \<lparr>title = ''Goblin'', url = ''/goblin'', score = Num (3752999689475413 / 1125899906842624), title_lc = String_prototype_toLowerCase, selected = False\<rparr>] \<and>
   js_string_lt (toLowerCase ''Goblin'') (toLowerCase ''Gorgon'')"
  by code_simp

text \<open>
  C3 (as amended). For every query without regular expression syntax characters and
  every title, the score is \<open>(len(q) / len(t)) * 10\<close> when the title starts with the
  query case-insensitively, \<open>len(q) / len(t)\<close> when it does not start with but contains
  the query, and \<open>0\<close> otherwise, and then the title is not in the candidate list.
\<close>

theorem score_of_literal_query:
  assumes "literal_query q"
  shows "\<exists>lead partial.
     new_RegExp engine (CHR ''^'' # q) = Inr lead \<and> new_RegExp engine q = Inr partial \<and>
     candidates engine (Defined idx) q = Inr (build_list lead partial q idx) \<and>
     (starts_with_ci q t \<longrightarrow>
        score_of lead partial q t = js_times10 (js_div_length (length q) (length t))) \<and>
     (\<not> starts_with_ci q t \<and> contains_ci q t \<longrightarrow>
        score_of lead partial q t = js_div_length (length q) (length t)) \<and>
     (\<not> starts_with_ci q t \<and> \<not> contains_ci q t \<longrightarrow>
        score_of lead partial q t = Num 0 \<and> t \<notin> title ` set (build_list lead partial q idx))"
proof -
  let ?lead = "test \<lparr>anchored = True, atoms = map Literal q\<rparr>"
  let ?partial = "test \<lparr>anchored = False, atoms = map Literal q\<rparr>"
  have 1: "new_RegExp engine (CHR ''^'' # q) = Inr ?lead"
    using assms by (rule new_RegExp_lead_literal)
  have 2: "new_RegExp engine q = Inr ?partial"
    using assms by (rule new_RegExp_literal)
  have 3: "candidates engine (Defined idx) q = Inr (build_list ?lead ?partial q idx)"
    using assms by (rule candidates_literal)
  have 4: "score_of ?lead ?partial q t = spec_score q t"
    by (rule score_of_literal)
  have 5: "\<not> starts_with_ci q t \<and> \<not> contains_ci q t \<longrightarrow>
        t \<notin> title ` set (build_list ?lead ?partial q idx)"
    by (simp add: title_build_list score_of_literal spec_score_def)
  have 6: "(starts_with_ci q t \<longrightarrow>
        score_of ?lead ?partial q t = js_times10 (js_div_length (length q) (length t))) \<and>
     (\<not> starts_with_ci q t \<and> contains_ci q t \<longrightarrow>
        score_of ?lead ?partial q t = js_div_length (length q) (length t)) \<and>
     (\<not> starts_with_ci q t \<and> \<not> contains_ci q t \<longrightarrow>
        score_of ?lead ?partial q t = Num 0 \<and> t \<notin> title ` set (build_list ?lead ?partial q idx))"
    using 4 5 by (simp add: spec_score_def)
  from 1 2 3 6 show ?thesis by blast
qed

theorem score_of_literal_query_witness:
  "literal_query ''go'' \<and> \<not> starts_with_ci ''go'' ''Dragon'' \<and> contains_ci ''go'' ''Dragon'' \<and>
   (\<exists>lead partial.
     new_RegExp rejecting_engine (CHR ''^'' # ''go'') = Inr lead \<and>
     new_RegExp rejecting_engine ''go'' = Inr partial \<and>
     score_of lead partial ''go'' ''Dragon'' = js_div_length (length ''go'') (length ''Dragon''))"
proof -
  have h: "literal_query ''go''" by code_simp
  have c: "\<not> starts_with_ci ''go'' ''Dragon'' \<and> contains_ci ''go'' ''Dragon''" by code_simp
  show ?thesis
    using h c score_of_literal_query [OF h, of rejecting_engine "[]" "''Dragon''"] by blast
qed

text \<open>
  C3 as stated fails for the query \<open>.\<close>: the title \<open>abc\<close> neither starts with nor
  contains a full stop, and is listed with the score \<open>(1 / 3) * 10\<close>.
\<close>

theorem dot_query_counterexample:
  "candidates rejecting_engine (Defined [(''abc'', ''/abc'')]) ''.'' =
     Inr [\<lparr>title = ''abc'', url = ''/abc'', score = Num (3752999689475413 / 1125899906842624),
           title_lc = String_prototype_toLowerCase, selected = False\<rparr>] \<and>
   \<not> starts_with_ci ''.'' ''abc'' \<and> \<not> contains_ci ''.'' ''abc''"
  by code_simp

text \<open>
  C4. For every engine, index and query: when the script fails to build its candidate
  list (a regular expression is rejected, the index is missing) the pass ends in that
  exception and there is no list; otherwise the pass returns a ranked list of at most
  ten entries, \<open>min 10 n\<close> of \<open>n\<close> candidates, namely the first ten of the sorted list,
  which holds the same candidates in descending order of score.
\<close>

theorem ranked_list_at_most_10:
  "(\<forall>e. candidates engine site_index q = Inl e \<longrightarrow> ranked_list engine site_index q = Inl e) \<and>
   (\<forall>cs. candidates engine site_index q = Inr cs \<longrightarrow>
      (\<exists>l. ranked_list engine site_index q = Inr l \<and>
           length l \<le> 10 \<and> length l = min 10 (length cs) \<and>
           l = take 10 (array_sort compare cs) \<and>
           mset (array_sort compare cs) = mset cs \<and>
           sorted_wrt (\<lambda>a b. \<not> js_lt (score a) (score b)) (array_sort compare cs)))"
proof (intro conjI allI impI)
  fix e assume "candidates engine site_index q = Inl e"
  then show "ranked_list engine site_index q = Inl e" by (simp add: ranked_list_def)
next
  fix cs assume cs: "candidates engine site_index q = Inr cs"
  have r: "ranked_list engine site_index q = Inr (take 10 (array_sort compare cs))"
    using cs by (rule ranked_list_of_candidates)
  have "\<forall>m \<in> set cs. js_gt (score m) (Num 0)"
    using cs by (rule candidates_score_positive)
  then have "\<forall>m \<in> set cs. score m \<noteq> NaN" by auto
  then have s: "sorted_wrt (\<lambda>a b. \<not> js_lt (score a) (score b)) (array_sort compare cs)"
    by (rule sorted_array_sort)
  have l: "length (take 10 (array_sort compare cs)) = min 10 (length cs)"
    by (simp add: length_array_sort min.commute)
  show "\<exists>l. ranked_list engine site_index q = Inr l \<and>
           length l \<le> 10 \<and> length l = min 10 (length cs) \<and>
           l = take 10 (array_sort compare cs) \<and>
           mset (array_sort compare cs) = mset cs \<and>
           sorted_wrt (\<lambda>a b. \<not> js_lt (score a) (score b)) (array_sort compare cs)"
    using r s l by (simp add: mset_array_sort)
qed

theorem ranked_list_at_most_10_witness:
  "\<exists>cs l. candidates rejecting_engine (Defined [(''abcdefghijk'', ''/abcdefghijk''), (''abcdefghij'', ''/abcdefghij''), (''abcdefghi'', ''/abcdefghi''), (''abcdefgh'', ''/abcdefgh''), (''abcdefg'', ''/abcdefg''), (''abcdef'', ''/abcdef''), (''abcde'', ''/abcde''), (''abcd'', ''/abcd''), (''abc'', ''/abc''), (''ab'', ''/ab''), (''a'', ''/a'')]) ''a'' = Inr cs \<and>
     ranked_list rejecting_engine (Defined [(''abcdefghijk'', ''/abcdefghijk''), (''abcdefghij'', ''/abcdefghij''), (''abcdefghi'', ''/abcdefghi''), (''abcdefgh'', ''/abcdefgh''), (''abcdefg'', ''/abcdefg''), (''abcdef'', ''/abcdef''), (''abcde'', ''/abcde''), (''abcd'', ''/abcd''), (''abc'', ''/abc''), (''ab'', ''/ab''), (''a'', ''/a'')]) ''a'' = Inr l \<and>
     map title cs = map fst [(''abcdefghijk'', ''/abcdefghijk''), (''abcdefghij'', ''/abcdefghij''), (''abcdefghi'', ''/abcdefghi''), (''abcdefgh'', ''/abcdefgh''), (''abcdefg'', ''/abcdefg''), (''abcdef'', ''/abcdef''), (''abcde'', ''/abcde''), (''abcd'', ''/abcd''), (''abc'', ''/abc''), (''ab'', ''/ab''), (''a'', ''/a'')] \<and>
     length l = 10 \<and>
     map title l = [''a'', ''ab'', ''abc'', ''abcd'', ''abcde'', ''abcdef'', ''abcdefg'', ''abcdefgh'', ''abcdefghi'', ''abcdefghij'']"
proof -
  let ?cs = "build_list (test \<lparr>anchored = True, atoms = map Literal ''a''\<rparr>)
      (test \<lparr>anchored = False, atoms = map Literal ''a''\<rparr>) ''a''
      [(''abcdefghijk'', ''/abcdefghijk''), (''abcdefghij'', ''/abcdefghij''), (''abcdefghi'', ''/abcdefghi''), (''abcdefgh'', ''/abcdefgh''), (''abcdefg'', ''/abcdefg''), (''abcdef'', ''/abcdef''), (''abcde'', ''/abcde''), (''abcd'', ''/abcd''), (''abc'', ''/abc''), (''ab'', ''/ab''), (''a'', ''/a'')]"
  have lit: "literal_query ''a''" by code_simp
  have c: "candidates rejecting_engine (Defined [(''abcdefghijk'', ''/abcdefghijk''), (''abcdefghij'', ''/abcdefghij''), (''abcdefghi'', ''/abcdefghi''), (''abcdefgh'', ''/abcdefgh''), (''abcdefg'', ''/abcdefg''), (''abcdef'', ''/abcdef''), (''abcde'', ''/abcde''), (''abcd'', ''/abcd''), (''abc'', ''/abc''), (''ab'', ''/ab''), (''a'', ''/a'')]) ''a'' = Inr ?cs"
    using lit by (rule candidates_literal)
  from ranked_list_at_most_10 [of rejecting_engine "(Defined [(''abcdefghijk'', ''/abcdefghijk''), (''abcdefghij'', ''/abcdefghij''), (''abcdefghi'', ''/abcdefghi''), (''abcdefgh'', ''/abcdefgh''), (''abcdefg'', ''/abcdefg''), (''abcdef'', ''/abcdef''), (''abcde'', ''/abcde''), (''abcd'', ''/abcd''), (''abc'', ''/abc''), (''ab'', ''/ab''), (''a'', ''/a'')])" "''a''"] c
  obtain l where r: "ranked_list rejecting_engine (Defined [(''abcdefghijk'', ''/abcdefghijk''), (''abcdefghij'', ''/abcdefghij''), (''abcdefghi'', ''/abcdefghi''), (''abcdefgh'', ''/abcdefgh''), (''abcdefg'', ''/abcdefg''), (''abcdef'', ''/abcdef''), (''abcde'', ''/abcde''), (''abcd'', ''/abcd''), (''abc'', ''/abc''), (''ab'', ''/ab''), (''a'', ''/a'')]) ''a'' = Inr l"
    and l: "l = take 10 (array_sort compare ?cs)"
    by blast
  have t: "map title ?cs = map fst [(''abcdefghijk'', ''/abcdefghijk''), (''abcdefghij'', ''/abcdefghij''), (''abcdefghi'', ''/abcdefghi''), (''abcdefgh'', ''/abcdefgh''), (''abcdefg'', ''/abcdefg''), (''abcdef'', ''/abcdef''), (''abcde'', ''/abcde''), (''abcd'', ''/abcd''), (''abc'', ''/abc''), (''ab'', ''/ab''), (''a'', ''/a'')]"
    by code_simp
  have s: "map title (take 10 (array_sort compare ?cs)) = [''a'', ''ab'', ''abc'', ''abcd'', ''abcde'', ''abcdef'', ''abcdefg'', ''abcdefgh'', ''abcdefghi'', ''abcdefghij'']"
    by code_simp
  have n: "length (take 10 (array_sort compare ?cs)) = 10"
    using arg_cong [OF s, of length] by simp
  show ?thesis
    by (intro exI [of _ ?cs] exI [of _ "take 10 (array_sort compare ?cs)"] conjI
          c r [unfolded l] t n s)
qed




text \<open>
  C6. \<open>Enter\<close> with a cursor left over from a longer list: after two \<open>ArrowDown\<close>
  releases on three matches the cursor is 1; when the input then reads \<open>gob\<close> (one
  match) and \<open>Enter\<close> is released, \<open>list[sel_idx]\<close> is \<open>undefined\<close> and the handler
  throws instead of navigating and clearing. \<open>render_results\<close> checks the same index
  against the list length; the \<open>Enter\<close> branch does not.
\<close>

theorem enter_stale_cursor:
  "run rejecting_engine (Defined [(''Goblin'', ''/goblin''), (''Gorgon'', ''/gorgon''), (''Griffon'', ''/griffon'')]) [KeyUp ''KeyG'' ''g'', KeyUp ''ArrowDown'' ''g'', KeyUp ''ArrowDown'' ''g''] initial =
     \<lparr>index_query = ''g'', index_results = Some [\<lparr>class_of = None, link_of = \<lparr>href = ''/goblin'', text_of = ''Goblin''\<rparr>\<rparr>,
        \<lparr>class_of = Some ''selected'', link_of = \<lparr>href = ''/gorgon'', text_of = ''Gorgon''\<rparr>\<rparr>,
        \<lparr>class_of = None, link_of = \<lparr>href = ''/griffon'', text_of = ''Griffon''\<rparr>\<rparr>],
      results_shown = True, sel_idx = 1, location = None\<rparr> \<and>
   handle rejecting_engine (Defined [(''Goblin'', ''/goblin''), (''Gorgon'', ''/gorgon''), (''Griffon'', ''/griffon'')]) (KeyUp ''Enter'' ''gob'')
     \<lparr>index_query = ''g'', index_results = Some [\<lparr>class_of = None, link_of = \<lparr>href = ''/goblin'', text_of = ''Goblin''\<rparr>\<rparr>,
        \<lparr>class_of = Some ''selected'', link_of = \<lparr>href = ''/gorgon'', text_of = ''Gorgon''\<rparr>\<rparr>,
        \<lparr>class_of = None, link_of = \<lparr>href = ''/griffon'', text_of = ''Griffon''\<rparr>\<rparr>],
      results_shown = True, sel_idx = 1, location = None\<rparr> = Inl TypeError"
  by code_simp

text \<open>
  C7 (as amended). The release of a key other than \<open>ArrowDown\<close>, \<open>ArrowUp\<close> and
  \<open>Enter\<close> whose pass finds at least one match shows the results and resets the cursor
  to none. A pass that finds no match, an \<open>Enter\<close> commit and \<open>clear_search_index\<close>
  (outside click, \<open>/\<close> binding) hide the results and leave the cursor as it was.
\<close>

theorem cursor_reset:
  "(ranked_list engine site_index (index_query s) = Inr r \<and> r \<noteq> [] \<and>
      c \<noteq> ''ArrowDown'' \<and> c \<noteq> ''ArrowUp'' \<and> c \<noteq> ''Enter'' \<longrightarrow>
      (\<exists>t. search_index engine site_index c s = Inr t \<and> results_shown t \<and> sel_idx t = - 1)) \<and>
   (ranked_list engine site_index (index_query s) = Inr [] \<longrightarrow>
      (\<exists>t. search_index engine site_index c s = Inr t \<and> \<not> results_shown t \<and>
           sel_idx t = sel_idx s)) \<and>
   (ranked_list engine site_index (index_query s) = Inr r \<and> r \<noteq> [] \<and>
      (sel_idx s = - 1 \<or> (0 \<le> sel_idx s \<and> sel_idx s < int (length r))) \<longrightarrow>
      (\<exists>t. search_index engine site_index ''Enter'' s = Inr t \<and> \<not> results_shown t \<and>
           index_query t = [] \<and> sel_idx t = sel_idx s)) \<and>
   \<not> results_shown (clear_search_index s) \<and>
   sel_idx (clear_search_index s) = sel_idx s"
proof (intro conjI impI)
  assume a: "ranked_list engine site_index (index_query s) = Inr r \<and> r \<noteq> [] \<and>
      c \<noteq> ''ArrowDown'' \<and> c \<noteq> ''ArrowUp'' \<and> c \<noteq> ''Enter''"
  then obtain items where "search_index engine site_index c s =
      Inr (s\<lparr>sel_idx := - 1, index_results := Some items, results_shown := True\<rparr>)"
    using ordinary_key_pass [of engine site_index s r c] by blast
  then show "\<exists>t. search_index engine site_index c s = Inr t \<and> results_shown t \<and> sel_idx t = - 1"
    by simp
next
  assume "ranked_list engine site_index (index_query s) = Inr []"
  then have "search_index engine site_index c s =
      Inr (s\<lparr>index_results := None, results_shown := False\<rparr>)"
    by (rule no_match_pass)
  then show "\<exists>t. search_index engine site_index c s = Inr t \<and> \<not> results_shown t \<and>
      sel_idx t = sel_idx s"
    by simp
next
  assume a: "ranked_list engine site_index (index_query s) = Inr r \<and> r \<noteq> [] \<and>
      (sel_idx s = - 1 \<or> (0 \<le> sel_idx s \<and> sel_idx s < int (length r)))"
  then have "search_index engine site_index ''Enter'' s =
     Inr (s\<lparr>index_query := [], index_results := None, results_shown := False,
            location := Some (url (if sel_idx s = - 1 then r ! 0 else r ! nat (sel_idx s)))\<rparr>)"
    using enter_navigates [of engine site_index s r] by blast
  then show "\<exists>t. search_index engine site_index ''Enter'' s = Inr t \<and> \<not> results_shown t \<and>
      index_query t = [] \<and> sel_idx t = sel_idx s"
    by simp
next
  show "\<not> results_shown (clear_search_index s)" by (simp add: clear_search_index_def)
next
  show "sel_idx (clear_search_index s) = sel_idx s" by (rule sel_idx_clear_search_index)
qed

theorem cursor_reset_witness:
  "(\<exists>r. ranked_list rejecting_engine (Defined [(''Goblin'', ''/goblin''), (''Gorgon'', ''/gorgon'')])
          (index_query (initial\<lparr>index_query := ''go'', sel_idx := 1\<rparr>)) = Inr r \<and> length r = 2) \<and>
   (\<exists>t. search_index rejecting_engine (Defined [(''Goblin'', ''/goblin''), (''Gorgon'', ''/gorgon'')]) ''KeyO''
          (initial\<lparr>index_query := ''go'', sel_idx := 1\<rparr>) = Inr t \<and>
        results_shown t \<and> sel_idx t = - 1)"
proof -
  let ?cs = "build_list (test \<lparr>anchored = True, atoms = map Literal ''go''\<rparr>)
      (test \<lparr>anchored = False, atoms = map Literal ''go''\<rparr>) ''go''
      [(''Goblin'', ''/goblin''), (''Gorgon'', ''/gorgon'')]"
  let ?s = "initial\<lparr>index_query := ''go'', sel_idx := 1\<rparr>"
  have lit: "literal_query ''go''" by code_simp
  have "candidates rejecting_engine (Defined [(''Goblin'', ''/goblin''), (''Gorgon'', ''/gorgon'')]) ''go'' = Inr ?cs"
    using lit by (rule candidates_literal)
  then have "ranked_list rejecting_engine (Defined [(''Goblin'', ''/goblin''), (''Gorgon'', ''/gorgon'')]) ''go'' = Inr (take 10 (array_sort compare ?cs))"
    by (rule ranked_list_of_candidates)
  then have r: "ranked_list rejecting_engine (Defined [(''Goblin'', ''/goblin''), (''Gorgon'', ''/gorgon'')]) (index_query ?s) = Inr (take 10 (array_sort compare ?cs))"
    by simp
  have n: "length (take 10 (array_sort compare ?cs)) = 2" by code_simp
  then have ne: "take 10 (array_sort compare ?cs) \<noteq> []" by auto
  have k: "''KeyO'' \<noteq> ''ArrowDown''" "''KeyO'' \<noteq> ''ArrowUp''" "''KeyO'' \<noteq> ''Enter''" by simp_all
  from cursor_reset [of rejecting_engine "(Defined [(''Goblin'', ''/goblin''), (''Gorgon'', ''/gorgon'')])" ?s "take 10 (array_sort compare ?cs)" "''KeyO''"] r ne k n
  show ?thesis by blast
qed

text \<open>
  C7 as stated fails for a click after \<open>ArrowDown\<close>, where the results are cleared
  and the cursor is still 0, and for an ordinary key that changes the query to one
  without matches, where the cursor is still 0 as well.
\<close>

theorem clear_keeps_cursor_counterexample:
  "run rejecting_engine (Defined [(''Goblin'', ''/goblin''), (''Gorgon'', ''/gorgon'')])
     [KeyUp ''KeyG'' ''g'', KeyUp ''ArrowDown'' ''g'', Click] initial =
     \<lparr>index_query = [], index_results = None,
          results_shown = False, sel_idx = 0, location = None\<rparr> \<and>
   run rejecting_engine (Defined [(''Goblin'', ''/goblin''), (''Gorgon'', ''/gorgon'')])
     [KeyUp ''KeyG'' ''g'', KeyUp ''ArrowDown'' ''g'', KeyUp ''KeyX'' ''gx''] initial =
     \<lparr>index_query = ''gx'', index_results = None,
          results_shown = False, sel_idx = 0, location = None\<rparr>"
  by code_simp

text \<open>
  C8 (as amended). With an index that is present (empty or not), the empty query and
  every query that both regular expressions are built for and that matches no title
  (for a query without syntax characters: that no title contains) give the empty
  candidate list, and the handler empties and hides the results display without
  throwing, whatever key was released.
\<close>

theorem no_match_hides_results:
  assumes "q = [] \<or>
     (literal_query q \<and> (\<forall>t \<in> fst ` set idx. \<not> contains_ci q t)) \<or>
     (\<exists>lead partial. new_RegExp engine (CHR ''^'' # q) = Inr lead \<and>
        new_RegExp engine q = Inr partial \<and> (\<forall>t \<in> fst ` set idx. \<not> lead t \<and> \<not> partial t))"
    and "index_query s = q"
  shows "candidates engine (Defined idx) q = Inr [] \<and>
         search_index engine (Defined idx) code s =
           Inr (s\<lparr>index_results := None, results_shown := False\<rparr>)"
proof -
  have c: "candidates engine (Defined idx) q = Inr []"
    using assms(1)
  proof (elim disjE)
    assume "q = []"
    then show ?thesis by (simp add: candidates_empty_query)
  next
    assume a: "literal_query q \<and> (\<forall>t \<in> fst ` set idx. \<not> contains_ci q t)"
    then have "\<forall>t \<in> fst ` set idx.
        \<not> test \<lparr>anchored = True, atoms = map Literal q\<rparr> t \<and>
        \<not> test \<lparr>anchored = False, atoms = map Literal q\<rparr> t"
      using starts_with_imp_contains by (auto simp: test_lead_literal test_partial_literal)
    then show ?thesis
      using a by (simp add: candidates_literal build_list_no_match)
  next
    assume "\<exists>lead partial. new_RegExp engine (CHR ''^'' # q) = Inr lead \<and>
        new_RegExp engine q = Inr partial \<and> (\<forall>t \<in> fst ` set idx. \<not> lead t \<and> \<not> partial t)"
    then obtain lead partial where "new_RegExp engine (CHR ''^'' # q) = Inr lead"
      and "new_RegExp engine q = Inr partial"
      and "\<forall>t \<in> fst ` set idx. \<not> lead t \<and> \<not> partial t" by blast
    then show ?thesis by (simp add: candidates_def build_list_no_match)
  qed
  then have "ranked_list engine (Defined idx) (index_query s) = Inr []"
    using assms(2) by (simp add: ranked_list_Nil_iff)
  then have "search_index engine (Defined idx) code s =
      Inr (s\<lparr>index_results := None, results_shown := False\<rparr>)"
    by (rule no_match_pass)
  with c show ?thesis by simp
qed

theorem no_match_hides_results_witness:
  "literal_query ''dragon'' \<and> \<not> contains_ci ''dragon'' ''Goblin'' \<and>
   candidates rejecting_engine (Defined [(''Goblin'', ''/goblin'')]) ''dragon'' = Inr [] \<and>
   search_index rejecting_engine (Defined [(''Goblin'', ''/goblin'')]) ''KeyN''
     \<lparr>index_query = ''dragon'', index_results = Some [\<lparr>class_of = None, link_of = \<lparr>href = ''/goblin'', text_of = ''Goblin''\<rparr>\<rparr>],
      results_shown = True, sel_idx = - 1, location = None\<rparr> =
     Inr \<lparr>index_query = ''dragon'', index_results = None,
      results_shown = False, sel_idx = - 1, location = None\<rparr>"
proof -
  let ?s = "\<lparr>index_query = ''dragon'', index_results = Some [\<lparr>class_of = None, link_of = \<lparr>href = ''/goblin'', text_of = ''Goblin''\<rparr>\<rparr>],
      results_shown = True, sel_idx = - 1, location = None\<rparr>"
  have l: "literal_query ''dragon''" by code_simp
  have n: "\<not> contains_ci ''dragon'' ''Goblin''" by code_simp
  have h: "''dragon'' = [] \<or>
     (literal_query ''dragon'' \<and> (\<forall>t \<in> fst ` set [(''Goblin'', ''/goblin'')]. \<not> contains_ci ''dragon'' t)) \<or>
     (\<exists>lead partial. new_RegExp rejecting_engine (CHR ''^'' # ''dragon'') = Inr lead \<and>
        new_RegExp rejecting_engine ''dragon'' = Inr partial \<and>
        (\<forall>t \<in> fst ` set [(''Goblin'', ''/goblin'')]. \<not> lead t \<and> \<not> partial t))"
    using l n by simp
  have q: "index_query ?s = ''dragon''" by simp
  from no_match_hides_results [OF h q, of "''KeyN''"] l n
  show ?thesis by simp
qed

text \<open>
  C8 as stated fails for a missing index, where \<open>Object.keys(site_index)\<close> throws
  before the display is touched, and for a query such as \<open>g(\<close>, which no title
  contains and no engine accepts as a pattern: the handler throws and the results of
  the query \<open>g\<close> stay on display.
\<close>

theorem missing_index_counterexample:
  "candidates rejecting_engine Undeclared [] = Inl ReferenceError \<and>
   search_index rejecting_engine Undeclared ''Backspace'' initial = Inl ReferenceError \<and>
   search_index rejecting_engine Undefined ''Backspace'' initial = Inl TypeError \<and>
   \<not> contains_ci ''g('' ''Goblin'' \<and>
   handle rejecting_engine (Defined [(''Goblin'', ''/goblin'')]) (KeyUp ''Digit9'' ''g('')
     \<lparr>index_query = ''g'', index_results = Some [\<lparr>class_of = None, link_of = \<lparr>href = ''/goblin'', text_of = ''Goblin''\<rparr>\<rparr>],
      results_shown = True, sel_idx = - 1, location = None\<rparr> = Inl SyntaxError \<and>
   run rejecting_engine (Defined [(''Goblin'', ''/goblin'')])
     [KeyUp ''KeyG'' ''g'', KeyUp ''Digit9'' ''g(''] initial =
     \<lparr>index_query = ''g('', index_results = Some [\<lparr>class_of = None, link_of = \<lparr>href = ''/goblin'', text_of = ''Goblin''\<rparr>\<rparr>],
      results_shown = True, sel_idx = - 1, location = None\<rparr>"
  by code_simp

text \<open>
  C9. The ranked list is determined by the query and the index alone. Whatever way the
  candidates of a query are arranged, if the arrangement is in descending order of
  score and keeps candidates of equal score in the order of the index, its first ten
  entries are the ranked list of the pass, entry by entry, with title, URL and score.
  Nor does a pass read anything else: from any two states and for any two keys with
  the same text in the input, the handler ends in the same exception or puts the same
  links on display (for keys other than \<open>Enter\<close>, which displays nothing).
\<close>

theorem ranked_list_determined:
  "(candidates engine site_index q = Inr cs \<and> mset ys = mset cs \<and>
      sorted_wrt (\<lambda>a b. \<not> js_lt (score a) (score b)) ys \<and>
      (\<forall>m \<in> set ys. filter (\<lambda>x. score x = score m) ys = filter (\<lambda>x. score x = score m) cs) \<longrightarrow>
      ranked_list engine site_index q = Inr (take 10 ys)) \<and>
   (index_query s1 = index_query s2 \<and> c1 \<noteq> ''Enter'' \<and> c2 \<noteq> ''Enter'' \<longrightarrow>
      map_sum id (\<lambda>t. map link_of (current_list t)) (search_index engine site_index c1 s1) =
      map_sum id (\<lambda>t. map link_of (current_list t)) (search_index engine site_index c2 s2))"
proof (intro conjI impI)
  assume a: "candidates engine site_index q = Inr cs \<and> mset ys = mset cs \<and>
      sorted_wrt (\<lambda>a b. \<not> js_lt (score a) (score b)) ys \<and>
      (\<forall>m \<in> set ys. filter (\<lambda>x. score x = score m) ys = filter (\<lambda>x. score x = score m) cs)"
  then have pos: "\<forall>m \<in> set cs. js_gt (score m) (Num 0)"
    using candidates_score_positive by blast
  have "array_sort compare cs = ys"
    using pos a by (intro array_sort_unique) blast+
  then show "ranked_list engine site_index q = Inr (take 10 ys)"
    using a ranked_list_of_candidates by blast
next
  assume a: "index_query s1 = index_query s2 \<and> c1 \<noteq> ''Enter'' \<and> c2 \<noteq> ''Enter''"
  have "map_sum id (\<lambda>t. map link_of (current_list t)) (search_index engine site_index c s) =
        map_sum id (map render_link) (ranked_list engine site_index (index_query s))"
    if "c \<noteq> ''Enter''" for c s
    by (rule search_index_shows [OF that])
  with a show "map_sum id (\<lambda>t. map link_of (current_list t)) (search_index engine site_index c1 s1) =
      map_sum id (\<lambda>t. map link_of (current_list t)) (search_index engine site_index c2 s2)"
    by simp
qed

theorem ranked_list_determined_witness:
  "candidates rejecting_engine (Defined [(''Dragon'', ''/dragon''), (''Gorgon'', ''/gorgon''), (''Goblin'', ''/goblin'')]) ''go'' =
     Inr [\<lparr>title = ''Dragon'', url = ''/dragon'', score = Num (6004799503160661 / 18014398509481984), title_lc = String_prototype_toLowerCase, selected = False\<rparr>,
          \<lparr>title = ''Gorgon'', url = ''/gorgon'', score = Num (3752999689475413 / 1125899906842624), title_lc = String_prototype_toLowerCase, selected = False\<rparr>,
          \<lparr>title = ''Goblin'', url = ''/goblin'', score = Num (3752999689475413 / 1125899906842624), title_lc = String_prototype_toLowerCase, selected = False\<rparr>] \<and>
   ranked_list rejecting_engine (Defined [(''Dragon'', ''/dragon''), (''Gorgon'', ''/gorgon''), (''Goblin'', ''/goblin'')]) ''go'' =
     Inr (take 10 [\<lparr>title = ''Gorgon'', url = ''/gorgon'', score = Num (3752999689475413 / 1125899906842624), title_lc = String_prototype_toLowerCase, selected = False\<rparr>,
          \<lparr>title = ''Goblin'', url = ''/goblin'', score = Num (3752999689475413 / 1125899906842624), title_lc = String_prototype_toLowerCase, selected = False\<rparr>,
          \<lparr>title = ''Dragon'', url = ''/dragon'', score = Num (6004799503160661 / 18014398509481984), title_lc = String_prototype_toLowerCase, selected = False\<rparr>]) \<and>
   map_sum id (\<lambda>t. map link_of (current_list t))
     (search_index rejecting_engine (Defined [(''Dragon'', ''/dragon''), (''Gorgon'', ''/gorgon''), (''Goblin'', ''/goblin'')]) ''KeyO'' (initial\<lparr>index_query := ''go''\<rparr>)) =
   map_sum id (\<lambda>t. map link_of (current_list t))
     (search_index rejecting_engine (Defined [(''Dragon'', ''/dragon''), (''Gorgon'', ''/gorgon''), (''Goblin'', ''/goblin'')]) ''ArrowDown''
        (initial\<lparr>index_query := ''go'', sel_idx := 0, results_shown := True\<rparr>))"
  (is "?C \<and> ?R \<and> ?D")
proof -
  let ?cs = "[\<lparr>title = ''Dragon'', url = ''/dragon'', score = Num (6004799503160661 / 18014398509481984), title_lc = String_prototype_toLowerCase, selected = False\<rparr>,
          \<lparr>title = ''Gorgon'', url = ''/gorgon'', score = Num (3752999689475413 / 1125899906842624), title_lc = String_prototype_toLowerCase, selected = False\<rparr>,
          \<lparr>title = ''Goblin'', url = ''/goblin'', score = Num (3752999689475413 / 1125899906842624), title_lc = String_prototype_toLowerCase, selected = False\<rparr>]"
  let ?ys = "[\<lparr>title = ''Gorgon'', url = ''/gorgon'', score = Num (3752999689475413 / 1125899906842624), title_lc = String_prototype_toLowerCase, selected = False\<rparr>,
          \<lparr>title = ''Goblin'', url = ''/goblin'', score = Num (3752999689475413 / 1125899906842624), title_lc = String_prototype_toLowerCase, selected = False\<rparr>,
          \<lparr>title = ''Dragon'', url = ''/dragon'', score = Num (6004799503160661 / 18014398509481984), title_lc = String_prototype_toLowerCase, selected = False\<rparr>]"
  have c: ?C by code_simp
  have m: "mset ?ys = mset ?cs" by (simp add: add_mset_commute)
  have s: "sorted_wrt (\<lambda>a b. \<not> js_lt (score a) (score b)) ?ys" by (simp add: js_lt_def)
  have f: "\<forall>m \<in> set ?ys. filter (\<lambda>x. score x = score m) ?ys = filter (\<lambda>x. score x = score m) ?cs"
    by simp
  have r: ?R
    using ranked_list_determined [of rejecting_engine "(Defined [(''Dragon'', ''/dragon''), (''Gorgon'', ''/gorgon''), (''Goblin'', ''/goblin'')])" "''go''" ?cs ?ys] c m s f
    by blast
  have q: "index_query (initial\<lparr>index_query := ''go''\<rparr>) =
      index_query (initial\<lparr>index_query := ''go'', sel_idx := 0, results_shown := True\<rparr>)"
    by simp
  have k: "''KeyO'' \<noteq> ''Enter''" "''ArrowDown'' \<noteq> ''Enter''" by simp_all
  have d: ?D
    using ranked_list_determined [of rejecting_engine "(Defined [(''Dragon'', ''/dragon''), (''Gorgon'', ''/gorgon''), (''Goblin'', ''/goblin'')])" "''go''" ?cs ?ys
      "initial\<lparr>index_query := ''go''\<rparr>"
      "initial\<lparr>index_query := ''go'', sel_idx := 0, results_shown := True\<rparr>"
      "''KeyO''" "''ArrowDown''"] q k
    by blast
  show ?thesis by (intro conjI c r d)
qed

text \<open>
  C10. For every list of candidates not yet marked (every ranked list is one, by
  \<open>ranked_list_unselected\<close>) and every value of the cursor, \<open>render_results\<close> returns
  without an exception, renders the entries in order, and gives the class \<open>selected\<close>
  to the entry at the cursor position and to no other; a cursor outside the list marks
  nothing.
\<close>

theorem render_results_marks_cursor:
  assumes "\<forall>m \<in> set list. \<not> selected m"
  shows "\<exists>items. render_results list s = Inr (s\<lparr>index_results := Some items, results_shown := True\<rparr>)
     \<and> length items = length list
     \<and> (\<forall>i < length list.
           class_of (items ! i) = (if int i = sel_idx s then Some ''selected'' else None)
         \<and> link_of (items ! i) = render_link (list ! i))"
proof (cases "0 \<le> sel_idx s \<and> sel_idx s < int (length list)")
  case True
  let ?k = "nat (sel_idx s)"
  let ?marked = "list[?k := (list ! ?k)\<lparr>selected := True\<rparr>]"
  let ?items = "map (\<lambda>m. render_item m (render_link m)) ?marked"
  have r: "render_results list s = Inr (s\<lparr>index_results := Some ?items, results_shown := True\<rparr>)"
    using True by (simp add: render_results_in_range)
  have l: "length ?items = length list" by simp
  have "\<forall>i < length list.
           class_of (map (\<lambda>m. render_item m (render_link m)) ?marked ! i)
             = (if int i = sel_idx s then Some ''selected'' else None)
         \<and> link_of (map (\<lambda>m. render_item m (render_link m)) ?marked ! i) = render_link (list ! i)"
  proof (intro allI impI)
    fix i assume i: "i < length list"
    have u: "\<not> selected (list ! i)" using assms i by simp
    have eq: "int i = sel_idx s \<longleftrightarrow> i = ?k" using True by auto
    show "class_of (map (\<lambda>m. render_item m (render_link m)) ?marked ! i)
             = (if int i = sel_idx s then Some ''selected'' else None)
         \<and> link_of (map (\<lambda>m. render_item m (render_link m)) ?marked ! i) = render_link (list ! i)"
      using i u unfolding eq
      by (simp add: nth_list_update render_item_def render_link_def)
  qed
  with r l show ?thesis by blast
next
  case False
  let ?items = "map (\<lambda>m. render_item m (render_link m)) list"
  have r: "render_results list s = Inr (s\<lparr>index_results := Some ?items, results_shown := True\<rparr>)"
    using False by (simp add: render_results_out_of_range)
  have l: "length ?items = length list" by simp
  have "\<forall>i < length list.
           class_of (map (\<lambda>m. render_item m (render_link m)) list ! i)
             = (if int i = sel_idx s then Some ''selected'' else None)
         \<and> link_of (map (\<lambda>m. render_item m (render_link m)) list ! i) = render_link (list ! i)"
    using assms False by (auto simp: render_item_def)
  with r l show ?thesis by blast
qed

theorem render_results_marks_cursor_witness:
  "render_results [\<lparr>title = ''Goblin'', url = ''/goblin'', score = Num 5,
                   title_lc = String_prototype_toLowerCase, selected = False\<rparr>,
                 \<lparr>title = ''Gorgon'', url = ''/gorgon'', score = Num 5,
                   title_lc = String_prototype_toLowerCase, selected = False\<rparr>]
      (initial\<lparr>sel_idx := 1\<rparr>) =
     Inr (initial\<lparr>sel_idx := 1,
        index_results := Some
          [\<lparr>class_of = None, link_of = \<lparr>href = ''/goblin'', text_of = ''Goblin''\<rparr>\<rparr>,
           \<lparr>class_of = Some ''selected'', link_of = \<lparr>href = ''/gorgon'', text_of = ''Gorgon''\<rparr>\<rparr>],
        results_shown := True\<rparr>)"
proof -
  let ?list = "[\<lparr>title = ''Goblin'', url = ''/goblin'', score = Num 5,
                   title_lc = String_prototype_toLowerCase, selected = False\<rparr>,
                 \<lparr>title = ''Gorgon'', url = ''/gorgon'', score = Num 5,
                   title_lc = String_prototype_toLowerCase, selected = False\<rparr>]"
  have h: "\<forall>m \<in> set ?list. \<not> selected m" by simp
  from render_results_marks_cursor [OF h, of "initial\<lparr>sel_idx := 1\<rparr>"]
  obtain items where
    r: "render_results ?list (initial\<lparr>sel_idx := 1\<rparr>) =
          Inr (initial\<lparr>sel_idx := 1, index_results := Some items, results_shown := True\<rparr>)"
    and l: "length items = 2"
    and a: "\<forall>i < 2. class_of (items ! i) = (if int i = 1 then Some ''selected'' else None)
         \<and> link_of (items ! i) = render_link (?list ! i)"
    by (auto simp: initial_def)
  from l obtain x y where xy: "items = [x, y]"
    by (metis (no_types, opaque_lifting) One_nat_def Suc_1 length_0_conv length_Suc_conv)
  have "class_of x = None \<and> link_of x = \<lparr>href = ''/goblin'', text_of = ''Goblin''\<rparr>"
    using a [rule_format, of 0] xy by (simp add: render_link_def)
  moreover have "class_of y = Some ''selected'' \<and> link_of y = \<lparr>href = ''/gorgon'', text_of = ''Gorgon''\<rparr>"
    using a [rule_format, of 1] xy by (simp add: render_link_def)
  ultimately have "items =
          [\<lparr>class_of = None, link_of = \<lparr>href = ''/goblin'', text_of = ''Goblin''\<rparr>\<rparr>,
           \<lparr>class_of = Some ''selected'', link_of = \<lparr>href = ''/gorgon'', text_of = ''Gorgon''\<rparr>\<rparr>]"
    using xy by simp
  with r show ?thesis by simp
qed

end
